theory Spec2Isabelle
  imports Main "HOL-Library.Word"
begin

section \<open>MultiButton: configuration (multi_button.h)\<close>

text \<open>
  The build-time constants of \<^verbatim>\<open>multi_button.h\<close>. The C code compares them with
  bit-fields after integer promotion, so they are natural numbers here and every
  comparison reads the field with \<open>unat\<close>.
\<close>

definition TICKS_INTERVAL :: nat where
  "TICKS_INTERVAL = 5"

definition DEBOUNCE_TICKS :: nat where
  "DEBOUNCE_TICKS = 3"

definition SHORT_TICKS :: nat where
  "SHORT_TICKS = 300 div TICKS_INTERVAL"

definition LONG_TICKS :: nat where
  "LONG_TICKS = 1000 div TICKS_INTERVAL"

definition PRESS_REPEAT_MAX_NUM :: nat where
  "PRESS_REPEAT_MAX_NUM = 15"

section \<open>Data model\<close>

text \<open>
  \<^verbatim>\<open>ButtonEvent\<close>: the enumerators in declaration order; \<open>enum_val\<close> is the integer
  the C compiler gives each of them.
\<close>

datatype ButtonEvent =
    BTN_PRESS_DOWN
  | BTN_PRESS_UP
  | BTN_PRESS_REPEAT
  | BTN_SINGLE_CLICK
  | BTN_DOUBLE_CLICK
  | BTN_LONG_PRESS_START
  | BTN_LONG_PRESS_HOLD
  | BTN_EVENT_COUNT
  | BTN_NONE_PRESS

fun enum_val :: "ButtonEvent \<Rightarrow> nat" where
  "enum_val BTN_PRESS_DOWN = 0"
| "enum_val BTN_PRESS_UP = 1"
| "enum_val BTN_PRESS_REPEAT = 2"
| "enum_val BTN_SINGLE_CLICK = 3"
| "enum_val BTN_DOUBLE_CLICK = 4"
| "enum_val BTN_LONG_PRESS_START = 5"
| "enum_val BTN_LONG_PRESS_HOLD = 6"
| "enum_val BTN_EVENT_COUNT = 7"
| "enum_val BTN_NONE_PRESS = 8"

text \<open>\<^verbatim>\<open>ButtonState\<close>: the values stored in the 3-bit \<open>state\<close> field.\<close>

definition BTN_STATE_IDLE :: "3 word" where
  "BTN_STATE_IDLE = 0"

definition BTN_STATE_PRESS :: "3 word" where
  "BTN_STATE_PRESS = 1"

definition BTN_STATE_RELEASE :: "3 word" where
  "BTN_STATE_RELEASE = 2"

definition BTN_STATE_REPEAT :: "3 word" where
  "BTN_STATE_REPEAT = 3"

definition BTN_STATE_LONG_HOLD :: "3 word" where
  "BTN_STATE_LONG_HOLD = 4"

text \<open>
  Pointers are addresses, \<open>NULL\<close> is 0. A function pointer is an address too: the
  handler bodies belong to the caller, only whether a slot is null matters here.
\<close>

type_synonym addr = nat

definition NULL :: addr where
  "NULL = 0"

text \<open>
  \<^verbatim>\<open>struct _Button\<close>, every bit-field with its declared width. The \<^verbatim>\<open>cb\<close> array is
  indexed by the event's integer value. The \<^verbatim>\<open>next\<close> link is kept in the registry's
  store (section Registry), the usual field-as-function view of a linked structure.
\<close>

record Button =
  ticks :: "16 word"
  repeat :: "4 word"
  event :: "4 word"
  state :: "3 word"
  debounce_cnt :: "3 word"
  active_level :: "1 word"
  button_level :: "1 word"
  button_id :: "8 word"
  hal_button_level :: addr
  cb :: "nat \<Rightarrow> addr"

text \<open>
  One handler invocation \<^verbatim>\<open>handle->cb[ev](handle)\<close>: the slot that fired and the
  instance as the handler sees it at that moment. Handlers are observers of the
  instance in this model.
\<close>

type_synonym call = "ButtonEvent \<times> Button"

section \<open>Per-instance operations (multi_button.c)\<close>

text \<open>The macro \<^verbatim>\<open>EVENT_CB(ev)\<close>: call the slot if it is not null.\<close>

definition EVENT_CB :: "ButtonEvent \<Rightarrow> Button \<Rightarrow> call list" where
  "EVENT_CB ev handle =
     (if cb handle (enum_val ev) \<noteq> NULL then [(ev, handle)] else [])"

text \<open>
  \<^verbatim>\<open>button_init\<close>. A pointer argument is \<open>None\<close> for \<^verbatim>\<open>NULL\<close> and \<open>Some\<close> of the
  pointee otherwise. \<^verbatim>\<open>memset\<close> zeroes every field; \<^verbatim>\<open>!active_level\<close> is 1 exactly
  when the 8-bit argument is 0, and the assignment to the 1-bit field keeps the low
  bit of the argument.
\<close>

definition button_init ::
  "Button option \<Rightarrow> addr \<Rightarrow> 8 word \<Rightarrow> 8 word \<Rightarrow> Button option" where
  "button_init handle pin_level active_level_arg button_id_arg =
     (case handle of
        None \<Rightarrow> None
      | Some h \<Rightarrow>
          if pin_level = NULL then Some h
          else Some \<lparr> ticks = 0, repeat = 0,
                      event = of_nat (enum_val BTN_NONE_PRESS),
                      state = BTN_STATE_IDLE, debounce_cnt = 0,
                      active_level = ucast active_level_arg,
                      button_level = (if active_level_arg = 0 then 1 else 0),
                      button_id = button_id_arg,
                      hal_button_level = pin_level,
                      cb = (\<lambda>_. NULL) \<rparr>)"

text \<open>\<^verbatim>\<open>button_attach\<close> and \<^verbatim>\<open>button_detach\<close>; the event argument is its integer value.\<close>

definition button_attach :: "Button option \<Rightarrow> nat \<Rightarrow> addr \<Rightarrow> Button option" where
  "button_attach handle ev f =
     (case handle of
        None \<Rightarrow> None
      | Some h \<Rightarrow>
          if ev \<ge> enum_val BTN_EVENT_COUNT then Some h
          else Some (h\<lparr>cb := (cb h)(ev := f)\<rparr>))"

definition button_detach :: "Button option \<Rightarrow> nat \<Rightarrow> Button option" where
  "button_detach handle ev =
     (case handle of
        None \<Rightarrow> None
      | Some h \<Rightarrow>
          if ev \<ge> enum_val BTN_EVENT_COUNT then Some h
          else Some (h\<lparr>cb := (cb h)(ev := NULL)\<rparr>))"

text \<open>\<^verbatim>\<open>button_get_event\<close>: the integer value of the returned enumeration.\<close>

definition button_get_event :: "Button option \<Rightarrow> nat" where
  "button_get_event handle =
     (case handle of
        None \<Rightarrow> enum_val BTN_NONE_PRESS
      | Some h \<Rightarrow> unat (event h))"

text \<open>\<^verbatim>\<open>button_get_repeat_count\<close>.\<close>

definition button_get_repeat_count :: "Button option \<Rightarrow> 8 word" where
  "button_get_repeat_count handle =
     (case handle of
        None \<Rightarrow> 0
      | Some h \<Rightarrow> ucast (repeat h))"

text \<open>\<^verbatim>\<open>button_reset\<close>.\<close>

definition button_reset :: "Button option \<Rightarrow> Button option" where
  "button_reset handle =
     (case handle of
        None \<Rightarrow> None
      | Some h \<Rightarrow>
          Some (h\<lparr>state := BTN_STATE_IDLE, ticks := 0, repeat := 0,
                  event := of_nat (enum_val BTN_NONE_PRESS), debounce_cnt := 0\<rparr>))"

text \<open>\<^verbatim>\<open>button_is_pressed\<close>.\<close>

definition button_is_pressed :: "Button option \<Rightarrow> int" where
  "button_is_pressed handle =
     (case handle of
        None \<Rightarrow> - 1
      | Some h \<Rightarrow> if button_level h = active_level h then 1 else 0)"

subsection \<open>The tick handler\<close>

text \<open>
  \<^verbatim>\<open>button_handler\<close> in its three parts, in source order. The raw sample
  \<^verbatim>\<open>read_gpio_level\<close> (what \<^verbatim>\<open>hal_button_level(button_id)\<close> returned for this tick)
  is a parameter, since the hardware level changes from tick to tick.

  Part 1 (lines 170-173): the tick counter advances in every state but Idle; the
  16-bit counter wraps.
\<close>

definition tick_count :: "Button \<Rightarrow> Button" where
  "tick_count handle =
     (if unat (state handle) > unat BTN_STATE_IDLE
      then handle\<lparr>ticks := ticks handle + 1\<rparr>
      else handle)"

text \<open>
  Part 2 (lines 177-192): debouncing. The comparison is between promoted integers;
  the pre-increment stores into the 3-bit counter and yields the stored value; the
  commit keeps the low bit of the 8-bit sample.
\<close>

definition debounce :: "8 word \<Rightarrow> Button \<Rightarrow> Button" where
  "debounce read_gpio_level handle =
     (if unat read_gpio_level \<noteq> unat (button_level handle) then
        (let h1 = handle\<lparr>debounce_cnt := debounce_cnt handle + 1\<rparr>
         in if unat (debounce_cnt h1) \<ge> DEBOUNCE_TICKS
            then h1\<lparr>button_level := ucast read_gpio_level, debounce_cnt := 0\<rparr>
            else h1)
      else handle\<lparr>debounce_cnt := 0\<rparr>)"

text \<open>
  Part 3 (lines 195-323): the \<^verbatim>\<open>switch\<close> on the state, with the \<^verbatim>\<open>default\<close> branch
  last. The result is the updated instance and the handler calls made, in order.
\<close>

definition state_machine :: "Button \<Rightarrow> Button \<times> call list" where
  "state_machine handle =
     (if state handle = BTN_STATE_IDLE then
        (if button_level handle = active_level handle then
           (let h1 = handle\<lparr>event := of_nat (enum_val BTN_PRESS_DOWN)\<rparr>;
                c1 = EVENT_CB BTN_PRESS_DOWN h1;
                h2 = h1\<lparr>ticks := 0, repeat := 1, state := BTN_STATE_PRESS\<rparr>
            in (h2, c1))
         else (handle\<lparr>event := of_nat (enum_val BTN_NONE_PRESS)\<rparr>, []))
      else if state handle = BTN_STATE_PRESS then
        (if button_level handle \<noteq> active_level handle then
           (let h1 = handle\<lparr>event := of_nat (enum_val BTN_PRESS_UP)\<rparr>;
                c1 = EVENT_CB BTN_PRESS_UP h1;
                h2 = h1\<lparr>ticks := 0, state := BTN_STATE_RELEASE\<rparr>
            in (h2, c1))
         else if unat (ticks handle) > LONG_TICKS then
           (let h1 = handle\<lparr>event := of_nat (enum_val BTN_LONG_PRESS_START)\<rparr>;
                c1 = EVENT_CB BTN_LONG_PRESS_START h1;
                h2 = h1\<lparr>state := BTN_STATE_LONG_HOLD\<rparr>
            in (h2, c1))
         else (handle, []))
      else if state handle = BTN_STATE_RELEASE then
        (if button_level handle = active_level handle then
           (let h1 = handle\<lparr>event := of_nat (enum_val BTN_PRESS_DOWN)\<rparr>;
                c1 = EVENT_CB BTN_PRESS_DOWN h1;
                h2 = (if unat (repeat h1) < PRESS_REPEAT_MAX_NUM
                      then h1\<lparr>repeat := repeat h1 + 1\<rparr> else h1);
                c2 = EVENT_CB BTN_PRESS_REPEAT h2;
                h3 = h2\<lparr>ticks := 0, state := BTN_STATE_REPEAT\<rparr>
            in (h3, c1 @ c2))
         else if unat (ticks handle) > SHORT_TICKS then
           (if unat (repeat handle) = 1 then
              (let h1 = handle\<lparr>event := of_nat (enum_val BTN_SINGLE_CLICK)\<rparr>;
                   c1 = EVENT_CB BTN_SINGLE_CLICK h1
               in (h1\<lparr>state := BTN_STATE_IDLE\<rparr>, c1))
            else if unat (repeat handle) = 2 then
              (let h1 = handle\<lparr>event := of_nat (enum_val BTN_DOUBLE_CLICK)\<rparr>;
                   c1 = EVENT_CB BTN_DOUBLE_CLICK h1
               in (h1\<lparr>state := BTN_STATE_IDLE\<rparr>, c1))
            else (handle\<lparr>state := BTN_STATE_IDLE\<rparr>, []))
         else (handle, []))
      else if state handle = BTN_STATE_REPEAT then
        (if button_level handle \<noteq> active_level handle then
           (let h1 = handle\<lparr>event := of_nat (enum_val BTN_PRESS_UP)\<rparr>;
                c1 = EVENT_CB BTN_PRESS_UP h1
            in if unat (ticks h1) < SHORT_TICKS
               then (h1\<lparr>ticks := 0, state := BTN_STATE_RELEASE\<rparr>, c1)
               else (h1\<lparr>state := BTN_STATE_IDLE\<rparr>, c1))
         else if unat (ticks handle) > SHORT_TICKS then
           (handle\<lparr>state := BTN_STATE_PRESS\<rparr>, [])
         else (handle, []))
      else if state handle = BTN_STATE_LONG_HOLD then
        (if button_level handle = active_level handle then
           (let h1 = handle\<lparr>event := of_nat (enum_val BTN_LONG_PRESS_HOLD)\<rparr>;
                c1 = EVENT_CB BTN_LONG_PRESS_HOLD h1
            in (h1, c1))
         else
           (let h1 = handle\<lparr>event := of_nat (enum_val BTN_PRESS_UP)\<rparr>;
                c1 = EVENT_CB BTN_PRESS_UP h1
            in (h1\<lparr>state := BTN_STATE_IDLE\<rparr>, c1)))
      else (handle\<lparr>state := BTN_STATE_IDLE\<rparr>, []))"

definition button_handler :: "8 word \<Rightarrow> Button \<Rightarrow> Button \<times> call list" where
  "button_handler read_gpio_level handle =
     state_machine (debounce read_gpio_level (tick_count handle))"

text \<open>
  A run of the handler on one instance over successive samples (what successive
  \<^verbatim>\<open>button_ticks\<close> calls do to it), collecting the handler calls in order.
\<close>

fun run_ticks :: "8 word list \<Rightarrow> Button \<Rightarrow> Button \<times> call list" where
  "run_ticks [] handle = (handle, [])"
| "run_ticks (x # xs) handle =
     (let (h1, c1) = button_handler x handle;
          (h2, c2) = run_ticks xs h1
      in (h2, c1 @ c2))"

subsection \<open>Notions used in the statements\<close>

text \<open>
  The debounced level that the state machine reads in the tick with raw sample
  \<open>raw\<close>, and whether it is the active level.
\<close>

definition stable_active :: "8 word \<Rightarrow> Button \<Rightarrow> bool" where
  "stable_active raw handle \<longleftrightarrow>
     button_level (debounce raw handle) = active_level handle"

text \<open>
  The debounced level is the active level in every tick of the run \<open>xs\<close>: a
  sustained press, whatever the raw samples do in between.
\<close>

fun stays_active :: "8 word list \<Rightarrow> Button \<Rightarrow> bool" where
  "stays_active [] handle \<longleftrightarrow> True"
| "stays_active (x # xs) handle \<longleftrightarrow>
     stable_active x handle \<and> stays_active xs (fst (button_handler x handle))"

text \<open>The tick counter as the state machine compares it in this tick.\<close>

definition ticks_now :: "Button \<Rightarrow> nat" where
  "ticks_now handle = unat (ticks (tick_count handle))"

text \<open>The events of \<open>es\<close> whose slot holds a handler, in order.\<close>

definition delivered :: "Button \<Rightarrow> ButtonEvent list \<Rightarrow> ButtonEvent list" where
  "delivered handle es = filter (\<lambda>e. cb handle (enum_val e) \<noteq> NULL) es"

text \<open>
  The number of most recent samples of \<open>xs\<close>, counted back from the last one, that
  all differ from \<open>level\<close>.
\<close>

definition disagreeing_run :: "1 word \<Rightarrow> 8 word list \<Rightarrow> nat" where
  "disagreeing_run level xs = length (takeWhile (\<lambda>s. unat s \<noteq> unat level) (rev xs))"

text \<open>The state changes after which the handler has set \<open>ticks\<close> to 0.\<close>

definition resetting :: "(3 word \<times> 3 word) set" where
  "resetting =
     {(BTN_STATE_IDLE, BTN_STATE_PRESS), (BTN_STATE_PRESS, BTN_STATE_RELEASE),
      (BTN_STATE_RELEASE, BTN_STATE_REPEAT), (BTN_STATE_REPEAT, BTN_STATE_RELEASE)}"

text \<open>
  Two concrete instances for evaluation: zeroed caller storage, and an active-high
  button after \<^verbatim>\<open>button_init\<close> with one handler attached to each of the seven events.
\<close>

definition zero_button :: Button where
  "zero_button =
     \<lparr> ticks = 0, repeat = 0, event = 0, state = 0, debounce_cnt = 0,
       active_level = 0, button_level = 0, button_id = 0, hal_button_level = 0,
       cb = (\<lambda>_. 0) \<rparr>"

definition sample_button :: Button where
  "sample_button =
     \<lparr> ticks = 0, repeat = 0, event = 8, state = 0, debounce_cnt = 0,
       active_level = 1, button_level = 0, button_id = 0, hal_button_level = 1,
       cb = (\<lambda>ev. if ev < 7 then 1 else 0) \<rparr>"

section \<open>Registry (multi_button.c)\<close>

text \<open>
  The active set is the intrusive singly linked list starting at the file-scope
  \<^verbatim>\<open>head_handle\<close>. Instances are addresses; \<open>nxt\<close> holds every instance's \<^verbatim>\<open>next\<close>
  field.
\<close>

record registry =
  head_handle :: addr
  nxt :: "addr \<Rightarrow> addr"

text \<open>
  The \<^verbatim>\<open>while (target)\<close> loop of \<^verbatim>\<open>button_start\<close>: \<open>Some True\<close> when it returns from
  inside the loop (instance found), \<open>Some False\<close> when it falls through, \<open>None\<close> when
  it never ends (a cyclic list).
\<close>

partial_function (option) start_scan :: "registry \<Rightarrow> addr \<Rightarrow> addr \<Rightarrow> bool option" where
  "start_scan reg handle target =
     (if target \<noteq> NULL then
        (if target = handle then Some True
         else start_scan reg handle (nxt reg target))
      else Some False)"

definition button_start :: "registry \<Rightarrow> addr \<Rightarrow> (int \<times> registry) option" where
  "button_start reg handle =
     (if handle = NULL then Some (- 2, reg)
      else
        (case start_scan reg handle (head_handle reg) of
           None \<Rightarrow> None
         | Some True \<Rightarrow> Some (- 1, reg)
         | Some False \<Rightarrow>
             Some (0, reg\<lparr>nxt := (nxt reg)(handle := head_handle reg),
                          head_handle := handle\<rparr>)))"

text \<open>
  \<^verbatim>\<open>button_stop\<close> walks with a pointer to a link: \<^verbatim>\<open>curr\<close> is \<^verbatim>\<open>&head_handle\<close> or
  \<^verbatim>\<open>&entry->next\<close>.
\<close>

datatype link = Head_link | Next_link addr

definition load_link :: "registry \<Rightarrow> link \<Rightarrow> addr" where
  "load_link reg cur =
     (case cur of Head_link \<Rightarrow> head_handle reg | Next_link e \<Rightarrow> nxt reg e)"

definition store_link :: "registry \<Rightarrow> link \<Rightarrow> addr \<Rightarrow> registry" where
  "store_link reg cur v =
     (case cur of
        Head_link \<Rightarrow> reg\<lparr>head_handle := v\<rparr>
      | Next_link e \<Rightarrow> reg\<lparr>nxt := (nxt reg)(e := v)\<rparr>)"

partial_function (option) stop_scan :: "registry \<Rightarrow> addr \<Rightarrow> link \<Rightarrow> registry option" where
  "stop_scan reg handle cur =
     (if load_link reg cur \<noteq> NULL then
        (if load_link reg cur = handle then
           Some (store_link
                   (store_link reg cur (nxt reg (load_link reg cur)))
                   (Next_link (load_link reg cur)) NULL)
         else stop_scan reg handle (Next_link (load_link reg cur)))
      else Some reg)"

definition button_stop :: "registry \<Rightarrow> addr \<Rightarrow> registry option" where
  "button_stop reg handle =
     (if handle = NULL then Some reg else stop_scan reg handle Head_link)"

text \<open>
  The list of instances the registry holds: \<open>chain n p as\<close> says that following the
  links \<open>n\<close> from \<open>p\<close> visits exactly \<open>as\<close> and then reaches \<^verbatim>\<open>NULL\<close>.
\<close>

fun chain :: "(addr \<Rightarrow> addr) \<Rightarrow> addr \<Rightarrow> addr list \<Rightarrow> bool" where
  "chain n p [] \<longleftrightarrow> p = NULL"
| "chain n p (a # as) \<longleftrightarrow> p = a \<and> a \<noteq> NULL \<and> chain n (n a) as"

definition active_set :: "registry \<Rightarrow> addr list \<Rightarrow> bool" where
  "active_set reg xs \<longleftrightarrow> chain (nxt reg) (head_handle reg) xs"

text \<open>A concrete registry for evaluation: the instances at addresses 3 and 5, in that order.\<close>

definition sample_registry :: registry where
  "sample_registry = \<lparr> head_handle = 3, nxt = (\<lambda>a. if a = 3 then 5 else NULL) \<rparr>"

section \<open>Basic facts\<close>

lemmas config_defs =
  TICKS_INTERVAL_def DEBOUNCE_TICKS_def SHORT_TICKS_def LONG_TICKS_def PRESS_REPEAT_MAX_NUM_def

lemmas state_defs =
  BTN_STATE_IDLE_def BTN_STATE_PRESS_def BTN_STATE_RELEASE_def BTN_STATE_REPEAT_def
  BTN_STATE_LONG_HOLD_def

text \<open>What each part of the handler leaves alone.\<close>

lemma debounce_frame [simp]:
  "state (debounce raw h) = state h"
  "ticks (debounce raw h) = ticks h"
  "repeat (debounce raw h) = repeat h"
  "event (debounce raw h) = event h"
  "active_level (debounce raw h) = active_level h"
  "cb (debounce raw h) = cb h"
  by (simp_all add: debounce_def Let_def)

lemma tick_count_frame [simp]:
  "state (tick_count h) = state h"
  "repeat (tick_count h) = repeat h"
  "event (tick_count h) = event h"
  "active_level (tick_count h) = active_level h"
  "button_level (tick_count h) = button_level h"
  "debounce_cnt (tick_count h) = debounce_cnt h"
  "cb (tick_count h) = cb h"
  by (simp_all add: tick_count_def)

lemma tick_count_ticks:
  "ticks (tick_count h) = (if state h = BTN_STATE_IDLE then ticks h else ticks h + 1)"
  by (simp add: tick_count_def state_defs unat_gt_0)

lemma debounce_after_tick_count [simp]:
  "button_level (debounce raw (tick_count h)) = button_level (debounce raw h)"
  "debounce_cnt (debounce raw (tick_count h)) = debounce_cnt (debounce raw h)"
  by (simp_all add: debounce_def Let_def)

lemma state_machine_frame [simp]:
  "active_level (fst (state_machine h)) = active_level h"
  "button_level (fst (state_machine h)) = button_level h"
  "debounce_cnt (fst (state_machine h)) = debounce_cnt h"
  "cb (fst (state_machine h)) = cb h"
  by (simp_all add: state_machine_def Let_def)

lemma handler_frame [simp]:
  "active_level (fst (button_handler x h)) = active_level h"
  "button_level (fst (button_handler x h)) = button_level (debounce x h)"
  "debounce_cnt (fst (button_handler x h)) = debounce_cnt (debounce x h)"
  "cb (fst (button_handler x h)) = cb h"
  by (simp_all add: button_handler_def)

lemma run_frame [simp]:
  "active_level (fst (run_ticks xs h)) = active_level h"
  "cb (fst (run_ticks xs h)) = cb h"
  by (induction xs arbitrary: h) (simp_all add: split_beta Let_def)

lemma run_ticks_snoc:
  "fst (run_ticks (xs @ [x]) h) = fst (button_handler x (fst (run_ticks xs h)))"
  by (induction xs arbitrary: h) (simp_all add: split_beta Let_def)

text \<open>Handler calls and the events that have a handler.\<close>

lemma EVENT_CB_events: "map fst (EVENT_CB e h) = delivered h [e]"
  by (simp add: EVENT_CB_def delivered_def)

lemma delivered_frame [simp]:
  "delivered (h\<lparr>event := e\<rparr>) es = delivered h es"
  "delivered (h\<lparr>repeat := r\<rparr>) es = delivered h es"
  "delivered (h\<lparr>ticks := t\<rparr>) es = delivered h es"
  "delivered (h\<lparr>state := s\<rparr>) es = delivered h es"
  "delivered (debounce raw h) es = delivered h es"
  "delivered (tick_count h) es = delivered h es"
  "delivered (fst (button_handler raw h)) es = delivered h es"
  by (simp_all add: delivered_def)

lemma delivered_Cons: "delivered h [e] @ delivered h es = delivered h (e # es)"
  by (simp add: delivered_def)

lemma delivered_sample_button: "delivered sample_button es = filter (\<lambda>e. enum_val e < 7) es"
  by (simp add: delivered_def sample_button_def NULL_def)

lemmas handler_defs =
  button_handler_def state_machine_def stable_active_def ticks_now_def state_defs Let_def
  EVENT_CB_events

text \<open>The bit-fields do not wrap where the code guards the increment.\<close>

lemma repeat_le_15: "unat (r :: 4 word) \<le> 15"
  using unsigned_less [of r, where 'a = nat] by simp

lemma repeat_inc: "unat (r :: 4 word) < 15 \<Longrightarrow> unat (r + 1) = unat r + 1"
  by (simp add: unat_word_ariths)

lemma cnt_inc: "unat (c :: 3 word) < 3 \<Longrightarrow> unat (c + 1) = unat c + 1"
  by (simp add: unat_word_ariths)

lemma binary_ucast:
  fixes x :: "8 word"
  assumes "x \<le> 1"
  shows "unat (ucast x :: 1 word) = unat x"
proof -
  from assms have "unat x \<le> 1" by (simp add: word_le_nat_alt)
  then have "unat x = 0 \<or> unat x = 1" by arith
  then have "x = 0 \<or> x = 1" by (auto simp add: word_unat_eq_iff)
  then show ?thesis by auto
qed

text \<open>
  The instance \<open>sample_button\<close> is what the public operations build: \<^verbatim>\<open>button_init\<close>
  on zeroed storage with active level 1, then one \<^verbatim>\<open>button_attach\<close> per event.
\<close>

lemma sample_button_built:
  "fold (\<lambda>ev b. button_attach b ev 1) [0, 1, 2, 3, 4, 5, 6]
     (button_init (Some zero_button) 1 1 0) = Some sample_button"
  by (simp add: button_init_def button_attach_def sample_button_def zero_button_def
      NULL_def state_defs fun_eq_iff)

section \<open>Invalid states (C8)\<close>

text \<open>
  C8. When the \<open>state\<close> field holds none of the five defined values, one tick of the
  handler sets it to Idle, calls no handler and leaves the \<open>event\<close> field as it was.
  The handler is a total function of the instance and the sample: there is no
  failing branch.
\<close>

theorem invalid_state_recovers:
  assumes "state h \<notin> {BTN_STATE_IDLE, BTN_STATE_PRESS, BTN_STATE_RELEASE,
                        BTN_STATE_REPEAT, BTN_STATE_LONG_HOLD}"
  shows "state (fst (button_handler raw h)) = BTN_STATE_IDLE \<and>
         snd (button_handler raw h) = [] \<and>
         event (fst (button_handler raw h)) = event h"
proof -
  from assms have "state_machine (debounce raw (tick_count h)) =
      ((debounce raw (tick_count h))\<lparr>state := BTN_STATE_IDLE\<rparr>, [])"
    by (simp add: state_machine_def)
  then show ?thesis by (simp add: button_handler_def)
qed

theorem invalid_state_recovers_witness:
  "state (fst (button_handler 1 (sample_button\<lparr>state := 6, event := 3\<rparr>))) = BTN_STATE_IDLE \<and>
   snd (button_handler 1 (sample_button\<lparr>state := 6, event := 3\<rparr>)) = [] \<and>
   event (fst (button_handler 1 (sample_button\<lparr>state := 6, event := 3\<rparr>))) = 3"
  using invalid_state_recovers [of "sample_button\<lparr>state := 6, event := 3\<rparr>" 1]
  by (simp add: state_defs)

section \<open>The click decision in Release (C3)\<close>

text \<open>
  C3. In the Release state, when the debounced level is not the active level and the
  tick counter exceeds \<open>SHORT_TICKS\<close>, the handler goes to Idle; with a repeat count
  of 1 it sets the event to SingleClick and calls that handler, with 2 DoubleClick,
  and with 3 or more it sets no event and calls no handler.
\<close>

theorem release_timeout_clicks:
  assumes "state h = BTN_STATE_RELEASE" "\<not> stable_active raw h" "ticks_now h > SHORT_TICKS"
  shows "state (fst (button_handler raw h)) = BTN_STATE_IDLE \<and>
    (unat (repeat h) = 1 \<longrightarrow>
       event (fst (button_handler raw h)) = of_nat (enum_val BTN_SINGLE_CLICK) \<and>
       map fst (snd (button_handler raw h)) = delivered h [BTN_SINGLE_CLICK]) \<and>
    (unat (repeat h) = 2 \<longrightarrow>
       event (fst (button_handler raw h)) = of_nat (enum_val BTN_DOUBLE_CLICK) \<and>
       map fst (snd (button_handler raw h)) = delivered h [BTN_DOUBLE_CLICK]) \<and>
    (unat (repeat h) \<ge> 3 \<longrightarrow>
       event (fst (button_handler raw h)) = event h \<and>
       snd (button_handler raw h) = [])"
proof -
  let ?g = "debounce raw (tick_count h)"
  from assms have g: "state ?g = 2" "button_level ?g \<noteq> active_level ?g"
    "unat (ticks ?g) > SHORT_TICKS" "repeat ?g = repeat h"
    by (simp_all add: stable_active_def ticks_now_def state_defs)
  show ?thesis
  proof (cases "unat (repeat h) = 1")
    case True
    with g show ?thesis
      by (simp add: button_handler_def state_machine_def state_defs Let_def EVENT_CB_events)
  next
    case False
    with g show ?thesis
      by (simp add: button_handler_def state_machine_def state_defs Let_def EVENT_CB_events)
  qed
qed

theorem release_timeout_clicks_witness:
  "state (fst (button_handler 0
        (sample_button\<lparr>state := BTN_STATE_RELEASE, ticks := 60, repeat := 2\<rparr>))) = BTN_STATE_IDLE \<and>
   event (fst (button_handler 0
        (sample_button\<lparr>state := BTN_STATE_RELEASE, ticks := 60, repeat := 2\<rparr>))) = 4 \<and>
   map fst (snd (button_handler 0
        (sample_button\<lparr>state := BTN_STATE_RELEASE, ticks := 60, repeat := 2\<rparr>))) = [BTN_DOUBLE_CLICK]"
proof -
  let ?b = "sample_button\<lparr>state := BTN_STATE_RELEASE, ticks := 60, repeat := 2\<rparr>"
  have 1: "state ?b = BTN_STATE_RELEASE" by simp
  have 2: "\<not> stable_active 0 ?b"
    by (simp add: stable_active_def debounce_def sample_button_def)
  have 3: "ticks_now ?b > SHORT_TICKS"
    by (simp add: ticks_now_def tick_count_ticks state_defs config_defs)
  have 4: "delivered ?b [BTN_DOUBLE_CLICK] = [BTN_DOUBLE_CLICK]"
    by (simp add: delivered_sample_button)
  show ?thesis
    using release_timeout_clicks [OF 1 2 3] 4 by simp
qed


section \<open>The repeat count (C4)\<close>

text \<open>
  C4. After any tick the repeat count is at most \<open>PRESS_REPEAT_MAX_NUM\<close>, also after
  any run of ticks. The handler writes it in two places only: it becomes 1 when Idle
  sees the active level, and in Release on a re-press it grows by one while below 15
  (without wrapping in its four bits) and stays at 15 otherwise; every other tick
  leaves it as it was.
\<close>

theorem repeat_count_capped:
  "unat (repeat (fst (button_handler raw h))) \<le> PRESS_REPEAT_MAX_NUM \<and>
   unat (repeat (fst (run_ticks xs h))) \<le> PRESS_REPEAT_MAX_NUM \<and>
   unat (repeat (fst (button_handler raw h))) =
     (if state h = BTN_STATE_IDLE \<and> stable_active raw h then 1
      else if state h = BTN_STATE_RELEASE \<and> stable_active raw h
           then (if unat (repeat h) < PRESS_REPEAT_MAX_NUM
                 then unat (repeat h) + 1 else unat (repeat h))
      else unat (repeat h))"
proof -
  have bound: "unat (repeat g) \<le> PRESS_REPEAT_MAX_NUM" for g :: Button
    using repeat_le_15 [of "repeat g"] by (simp add: PRESS_REPEAT_MAX_NUM_def)
  have step: "unat (repeat (fst (button_handler raw h))) =
     (if state h = BTN_STATE_IDLE \<and> stable_active raw h then 1
      else if state h = BTN_STATE_RELEASE \<and> stable_active raw h
           then (if unat (repeat h) < PRESS_REPEAT_MAX_NUM
                 then unat (repeat h) + 1 else unat (repeat h))
      else unat (repeat h))"
    by (auto simp add: handler_defs PRESS_REPEAT_MAX_NUM_def repeat_inc)
  from bound [of "fst (button_handler raw h)"] bound [of "fst (run_ticks xs h)"] step
  show ?thesis by blast
qed

theorem repeat_count_capped_witness:
  "unat (repeat (fst (button_handler 1
      (sample_button\<lparr>state := BTN_STATE_RELEASE, repeat := 15\<rparr>)))) = 15 \<and>
   unat (repeat (fst (button_handler 1
      (sample_button\<lparr>state := BTN_STATE_RELEASE, button_level := 1, repeat := 15\<rparr>)))) = 15 \<and>
   unat (repeat (fst (button_handler 1
      (sample_button\<lparr>state := BTN_STATE_RELEASE, button_level := 1, repeat := 14\<rparr>)))) = 15"
proof -
  let ?a = "sample_button\<lparr>state := BTN_STATE_RELEASE, repeat := 15\<rparr>"
  let ?b = "sample_button\<lparr>state := BTN_STATE_RELEASE, button_level := 1, repeat := 15\<rparr>"
  let ?c = "sample_button\<lparr>state := BTN_STATE_RELEASE, button_level := 1, repeat := 14\<rparr>"
  have a: "\<not> stable_active 1 ?a"
    by (simp add: stable_active_def debounce_def sample_button_def DEBOUNCE_TICKS_def)
  have b: "stable_active 1 ?b" "stable_active 1 ?c"
    by (simp_all add: stable_active_def debounce_def sample_button_def)
  show ?thesis
    using repeat_count_capped [of 1 ?a "[]"] repeat_count_capped [of 1 ?b "[]"]
      repeat_count_capped [of 1 ?c "[]"] a b
    by (simp add: state_defs PRESS_REPEAT_MAX_NUM_def)
qed

section \<open>Re-press in Release (C5)\<close>

text \<open>
  C5. In the Release state, when the debounced level is the active level, one tick
  calls the PressDown handler and then the PressRepeat handler (each if attached, in
  that order, nothing else); the PressDown handler sees the old repeat count, the
  PressRepeat handler the incremented one, capped at 15; the instance ends in Repeat
  with \<open>ticks\<close> 0. The \<open>event\<close> field holds PressDown.
\<close>

theorem release_repress_two_events:
  assumes "state h = BTN_STATE_RELEASE" "stable_active raw h"
  shows "state (fst (button_handler raw h)) = BTN_STATE_REPEAT \<and>
    ticks (fst (button_handler raw h)) = 0 \<and>
    event (fst (button_handler raw h)) = of_nat (enum_val BTN_PRESS_DOWN) \<and>
    unat (repeat (fst (button_handler raw h))) =
      min PRESS_REPEAT_MAX_NUM (unat (repeat h) + 1) \<and>
    map fst (snd (button_handler raw h)) = delivered h [BTN_PRESS_DOWN, BTN_PRESS_REPEAT] \<and>
    (\<forall>s. (BTN_PRESS_DOWN, s) \<in> set (snd (button_handler raw h)) \<longrightarrow> repeat s = repeat h) \<and>
    (\<forall>s. (BTN_PRESS_REPEAT, s) \<in> set (snd (button_handler raw h)) \<longrightarrow>
         unat (repeat s) = min PRESS_REPEAT_MAX_NUM (unat (repeat h) + 1))"
proof (cases "unat (repeat h) < PRESS_REPEAT_MAX_NUM")
  case True
  then have "min PRESS_REPEAT_MAX_NUM (unat (repeat h) + 1) = unat (repeat h + 1)"
    by (simp add: PRESS_REPEAT_MAX_NUM_def repeat_inc)
  with True assms show ?thesis
    by (auto simp add: handler_defs EVENT_CB_def delivered_def)
next
  case False
  then have "min PRESS_REPEAT_MAX_NUM (unat (repeat h) + 1) = unat (repeat h)"
    using repeat_le_15 [of "repeat h"] by (simp add: PRESS_REPEAT_MAX_NUM_def)
  with False assms show ?thesis
    by (auto simp add: handler_defs EVENT_CB_def delivered_def)
qed

theorem release_repress_two_events_witness:
  "state (fst (button_handler 1
      (sample_button\<lparr>state := BTN_STATE_RELEASE, button_level := 1, repeat := 1\<rparr>))) =
     BTN_STATE_REPEAT \<and>
   unat (repeat (fst (button_handler 1
      (sample_button\<lparr>state := BTN_STATE_RELEASE, button_level := 1, repeat := 1\<rparr>)))) = 2 \<and>
   map fst (snd (button_handler 1
      (sample_button\<lparr>state := BTN_STATE_RELEASE, button_level := 1, repeat := 1\<rparr>))) =
     [BTN_PRESS_DOWN, BTN_PRESS_REPEAT]"
proof -
  let ?b = "sample_button\<lparr>state := BTN_STATE_RELEASE, button_level := 1, repeat := 1\<rparr>"
  have 1: "state ?b = BTN_STATE_RELEASE" by simp
  have 2: "stable_active 1 ?b"
    by (simp add: stable_active_def debounce_def sample_button_def)
  have 3: "delivered ?b [BTN_PRESS_DOWN, BTN_PRESS_REPEAT] = [BTN_PRESS_DOWN, BTN_PRESS_REPEAT]"
    by (simp add: delivered_def sample_button_def NULL_def)
  show ?thesis
    using release_repress_two_events [OF 1 2] 3
    by (simp add: PRESS_REPEAT_MAX_NUM_def)
qed

section \<open>The Repeat state (C7)\<close>

text \<open>
  C7. In the Repeat state: when the debounced level is not the active level, the
  handler sets the event to PressUp and calls that handler, and goes to Release with
  \<open>ticks\<close> 0 if the counter is below \<open>SHORT_TICKS\<close>, to Idle otherwise; when the level
  is active and the counter exceeds \<open>SHORT_TICKS\<close>, it goes to Press, calls no handler
  and leaves the event as it was. No tick in Repeat ends in LongHold or calls the
  LongPressStart handler.
\<close>

theorem repeat_state_transitions:
  assumes "state h = BTN_STATE_REPEAT"
  shows "(\<not> stable_active raw h \<longrightarrow>
            map fst (snd (button_handler raw h)) = delivered h [BTN_PRESS_UP] \<and>
            event (fst (button_handler raw h)) = of_nat (enum_val BTN_PRESS_UP) \<and>
            (ticks_now h < SHORT_TICKS \<longrightarrow>
               state (fst (button_handler raw h)) = BTN_STATE_RELEASE \<and>
               ticks (fst (button_handler raw h)) = 0) \<and>
            (\<not> ticks_now h < SHORT_TICKS \<longrightarrow>
               state (fst (button_handler raw h)) = BTN_STATE_IDLE)) \<and>
         (stable_active raw h \<and> ticks_now h > SHORT_TICKS \<longrightarrow>
            state (fst (button_handler raw h)) = BTN_STATE_PRESS \<and>
            snd (button_handler raw h) = [] \<and>
            event (fst (button_handler raw h)) = event h) \<and>
         state (fst (button_handler raw h)) \<noteq> BTN_STATE_LONG_HOLD \<and>
         BTN_LONG_PRESS_START \<notin> fst ` set (snd (button_handler raw h))"
proof (cases "stable_active raw h")
  case True
  with assms show ?thesis
    by (auto simp add: handler_defs)
next
  case False
  with assms show ?thesis
    by (auto simp add: handler_defs EVENT_CB_def delivered_def)
qed

theorem repeat_state_transitions_witness:
  "state (fst (button_handler 1
      (sample_button\<lparr>state := BTN_STATE_REPEAT, button_level := 1, ticks := 60\<rparr>))) =
     BTN_STATE_PRESS \<and>
   snd (button_handler 1
      (sample_button\<lparr>state := BTN_STATE_REPEAT, button_level := 1, ticks := 60\<rparr>)) = [] \<and>
   state (fst (button_handler 0
      (sample_button\<lparr>state := BTN_STATE_REPEAT, ticks := 58\<rparr>))) = BTN_STATE_RELEASE \<and>
   state (fst (button_handler 0
      (sample_button\<lparr>state := BTN_STATE_REPEAT, ticks := 59\<rparr>))) = BTN_STATE_IDLE \<and>
   map fst (snd (button_handler 0
      (sample_button\<lparr>state := BTN_STATE_REPEAT, ticks := 59\<rparr>))) = [BTN_PRESS_UP]"
proof -
  let ?a = "sample_button\<lparr>state := BTN_STATE_REPEAT, button_level := 1, ticks := 60\<rparr>"
  let ?b = "sample_button\<lparr>state := BTN_STATE_REPEAT, ticks := 58\<rparr>"
  let ?c = "sample_button\<lparr>state := BTN_STATE_REPEAT, ticks := 59\<rparr>"
  have a: "stable_active 1 ?a" "ticks_now ?a > SHORT_TICKS"
    by (simp_all add: stable_active_def debounce_def sample_button_def ticks_now_def
        tick_count_ticks state_defs config_defs)
  have b: "\<not> stable_active 0 ?b" "ticks_now ?b < SHORT_TICKS"
    by (simp_all add: stable_active_def debounce_def sample_button_def ticks_now_def
        tick_count_ticks state_defs config_defs)
  have c: "\<not> stable_active 0 ?c" "\<not> ticks_now ?c < SHORT_TICKS"
    by (simp_all add: stable_active_def debounce_def sample_button_def ticks_now_def
        tick_count_ticks state_defs config_defs)
  have d: "delivered ?c [BTN_PRESS_UP] = [BTN_PRESS_UP]"
    by (simp add: delivered_def sample_button_def NULL_def)
  show ?thesis
    using repeat_state_transitions [of ?a 1] repeat_state_transitions [of ?b 0]
      repeat_state_transitions [of ?c 0] a b c d
    by simp
qed

section \<open>The event field is not latched (C10)\<close>

text \<open>
  C10. \<^verbatim>\<open>button_get_event\<close> on a null instance returns the value of "none". A tick in
  Idle with the debounced level not active writes "none" into the event field,
  and no tick in Idle leaves SingleClick or DoubleClick there: a click set on the
  way into Idle is read back by \<^verbatim>\<open>button_get_event\<close> until the next tick only.
\<close>

theorem event_not_latched:
  "button_get_event None = enum_val BTN_NONE_PRESS \<and>
   (state h = BTN_STATE_IDLE \<and> \<not> stable_active raw h \<longrightarrow>
      event (fst (button_handler raw h)) = of_nat (enum_val BTN_NONE_PRESS) \<and>
      button_get_event (Some (fst (button_handler raw h))) = enum_val BTN_NONE_PRESS) \<and>
   (state h = BTN_STATE_IDLE \<longrightarrow>
      button_get_event (Some (fst (button_handler raw h))) \<noteq> enum_val BTN_SINGLE_CLICK \<and>
      button_get_event (Some (fst (button_handler raw h))) \<noteq> enum_val BTN_DOUBLE_CLICK)"
proof -
  have null: "button_get_event None = enum_val BTN_NONE_PRESS"
    by (simp add: button_get_event_def)
  have idle: "event (fst (button_handler raw h)) =
      (if stable_active raw h then of_nat (enum_val BTN_PRESS_DOWN)
       else of_nat (enum_val BTN_NONE_PRESS))" if "state h = BTN_STATE_IDLE"
    using that by (simp add: handler_defs)
  show ?thesis
    using null idle by (simp add: button_get_event_def)
qed

theorem event_not_latched_witness:
  "button_get_event (Some (fst (button_handler 0
      (sample_button\<lparr>state := BTN_STATE_RELEASE, ticks := 60, repeat := 1\<rparr>)))) = 3 \<and>
   button_get_event (Some (fst (button_handler 0 (fst (button_handler 0
      (sample_button\<lparr>state := BTN_STATE_RELEASE, ticks := 60, repeat := 1\<rparr>)))))) = 8"
proof -
  let ?b = "sample_button\<lparr>state := BTN_STATE_RELEASE, ticks := 60, repeat := 1\<rparr>"
  let ?g = "fst (button_handler 0 ?b)"
  have click: "button_get_event (Some ?g) = 3"
    by (simp add: button_get_event_def button_handler_def state_machine_def state_defs
        tick_count_def debounce_def sample_button_def config_defs Let_def)
  have idle: "state ?g = BTN_STATE_IDLE"
    by (simp add: button_handler_def state_machine_def state_defs
        tick_count_def debounce_def sample_button_def config_defs Let_def)
  have quiet: "\<not> stable_active 0 ?g"
    by (simp add: stable_active_def debounce_def sample_button_def)
  show ?thesis
    using event_not_latched [of ?g 0] click idle quiet by simp
qed

section \<open>The tick counter at state changes (C1)\<close>

text \<open>
  The active-high sample instance is pressed for three samples (Idle to Press),
  released for three (Press to Release) and left alone for sixty more: it is in
  Release. The next quiet tick takes it to Idle with the SingleClick decision, and
  \<open>ticks\<close> is 61 after that state change, not 0.
\<close>

theorem ticks_not_reset_counterexample:
  "state (fst (run_ticks (replicate 3 1 @ replicate 63 0) sample_button)) = BTN_STATE_RELEASE \<and>
   state (fst (button_handler 0
     (fst (run_ticks (replicate 3 1 @ replicate 63 0) sample_button)))) = BTN_STATE_IDLE \<and>
   ticks (fst (button_handler 0
     (fst (run_ticks (replicate 3 1 @ replicate 63 0) sample_button)))) = 61"
  by code_simp

text \<open>
  C1 (amended). Whenever a tick changes the state, \<open>ticks\<close> is 0 afterwards if the change
  is Idle to Press, Press to Release, Release to Repeat or Repeat to Release; after
  every other change (Press to LongHold, Repeat to Press, Release to Idle, Repeat to
  Idle, LongHold to Idle) the counter is not reset: it holds the value it was
  incremented to in that tick.
\<close>

theorem ticks_reset_on_entry:
  assumes "state (fst (button_handler raw h)) \<noteq> state h"
  shows "ticks (fst (button_handler raw h)) =
     (if (state h, state (fst (button_handler raw h))) \<in> resetting then 0 else ticks h + 1)"
proof -
  consider "state h = BTN_STATE_IDLE" | "state h = BTN_STATE_PRESS"
    | "state h = BTN_STATE_RELEASE" | "state h = BTN_STATE_REPEAT"
    | "state h = BTN_STATE_LONG_HOLD"
    | "state h \<notin> {BTN_STATE_IDLE, BTN_STATE_PRESS, BTN_STATE_RELEASE,
                     BTN_STATE_REPEAT, BTN_STATE_LONG_HOLD}"
    by blast
  then show ?thesis
  proof cases
    case 1
    with assms show ?thesis
      by (auto simp add: handler_defs resetting_def tick_count_ticks split: if_splits)
  next
    case 2
    with assms show ?thesis
      by (auto simp add: handler_defs resetting_def tick_count_ticks split: if_splits)
  next
    case 3
    with assms show ?thesis
      by (auto simp add: handler_defs resetting_def tick_count_ticks split: if_splits)
  next
    case 4
    with assms show ?thesis
      by (auto simp add: handler_defs resetting_def tick_count_ticks split: if_splits)
  next
    case 5
    with assms show ?thesis
      by (auto simp add: handler_defs resetting_def tick_count_ticks split: if_splits)
  next
    case 6
    then show ?thesis
      by (auto simp add: handler_defs resetting_def tick_count_ticks)
  qed
qed

theorem ticks_reset_on_entry_witness:
  "ticks (fst (button_handler 1
      (sample_button\<lparr>state := BTN_STATE_PRESS, button_level := 1, ticks := 200\<rparr>))) = 201 \<and>
   state (fst (button_handler 1
      (sample_button\<lparr>state := BTN_STATE_PRESS, button_level := 1, ticks := 200\<rparr>))) =
     BTN_STATE_LONG_HOLD \<and>
   ticks (fst (button_handler 1
      (sample_button\<lparr>state := BTN_STATE_PRESS, ticks := 7\<rparr>))) = 0 \<and>
   state (fst (button_handler 1
      (sample_button\<lparr>state := BTN_STATE_PRESS, ticks := 7\<rparr>))) = BTN_STATE_RELEASE"
proof -
  let ?a = "sample_button\<lparr>state := BTN_STATE_PRESS, button_level := 1, ticks := 200\<rparr>"
  let ?b = "sample_button\<lparr>state := BTN_STATE_PRESS, ticks := 7\<rparr>"
  have a: "state (fst (button_handler 1 ?a)) = BTN_STATE_LONG_HOLD"
    by (simp add: button_handler_def state_machine_def state_defs
        tick_count_def debounce_def sample_button_def config_defs Let_def)
  have b: "state (fst (button_handler 1 ?b)) = BTN_STATE_RELEASE"
    by (simp add: button_handler_def state_machine_def state_defs
        tick_count_def debounce_def sample_button_def config_defs Let_def)
  show ?thesis
    using ticks_reset_on_entry [of 1 ?a] ticks_reset_on_entry [of 1 ?b] a b
    by (simp add: resetting_def state_defs)
qed

section \<open>Sustained press (C9)\<close>

lemma hold_step:
  assumes "state h = BTN_STATE_LONG_HOLD" "stable_active x h"
  shows "state (fst (button_handler x h)) = BTN_STATE_LONG_HOLD"
    and "map fst (snd (button_handler x h)) = delivered h [BTN_LONG_PRESS_HOLD]"
    and "event (fst (button_handler x h)) = of_nat (enum_val BTN_LONG_PRESS_HOLD)"
  using assms by (simp_all add: handler_defs)

lemma hold_run:
  assumes "state h = BTN_STATE_LONG_HOLD" "stays_active xs h"
  shows "state (fst (run_ticks xs h)) = BTN_STATE_LONG_HOLD \<and>
         map fst (snd (run_ticks xs h)) =
           delivered h (replicate (length xs) BTN_LONG_PRESS_HOLD) \<and>
         (xs \<noteq> [] \<longrightarrow>
            event (fst (run_ticks xs h)) = of_nat (enum_val BTN_LONG_PRESS_HOLD))"
  using assms
proof (induction xs arbitrary: h)
  case Nil
  then show ?case by (simp add: delivered_def)
next
  case (Cons x xs)
  let ?g = "fst (button_handler x h)"
  from Cons.prems have x: "stable_active x h" and rest: "stays_active xs ?g" by simp_all
  note st = hold_step [OF Cons.prems(1) x]
  from Cons.IH [OF st(1) rest] st(2,3) show ?case
    by (cases xs)
      (simp_all add: split_beta Let_def delivered_Cons)
qed

lemma press_step:
  assumes "state h = BTN_STATE_PRESS" "stable_active x h"
  shows "unat (ticks h) < LONG_TICKS \<Longrightarrow> state (fst (button_handler x h)) = BTN_STATE_PRESS"
    and "unat (ticks h) < LONG_TICKS \<Longrightarrow> snd (button_handler x h) = []"
    and "unat (ticks h) < LONG_TICKS \<Longrightarrow>
           unat (ticks (fst (button_handler x h))) = unat (ticks h) + 1"
    and "unat (ticks h) = LONG_TICKS \<Longrightarrow>
           state (fst (button_handler x h)) = BTN_STATE_LONG_HOLD"
    and "unat (ticks h) = LONG_TICKS \<Longrightarrow>
           map fst (snd (button_handler x h)) = delivered h [BTN_LONG_PRESS_START]"
    and "unat (ticks h) = LONG_TICKS \<Longrightarrow>
           event (fst (button_handler x h)) = of_nat (enum_val BTN_LONG_PRESS_START)"
  using assms
  by (simp_all add: handler_defs tick_count_ticks config_defs unat_word_ariths)

lemma press_run:
  assumes "state h = BTN_STATE_PRESS" "unat (ticks h) \<le> LONG_TICKS" "stays_active xs h"
  shows "state (fst (run_ticks xs h)) =
           (if length xs \<le> LONG_TICKS - unat (ticks h)
            then BTN_STATE_PRESS else BTN_STATE_LONG_HOLD) \<and>
         map fst (snd (run_ticks xs h)) =
           delivered h
             (if length xs \<le> LONG_TICKS - unat (ticks h) then []
              else BTN_LONG_PRESS_START #
                   replicate (length xs - (LONG_TICKS - unat (ticks h)) - 1)
                     BTN_LONG_PRESS_HOLD) \<and>
         (length xs > LONG_TICKS - unat (ticks h) \<longrightarrow>
            event (fst (run_ticks xs h)) =
              (if length xs = LONG_TICKS - unat (ticks h) + 1
               then of_nat (enum_val BTN_LONG_PRESS_START)
               else of_nat (enum_val BTN_LONG_PRESS_HOLD)))"
  using assms
proof (induction xs arbitrary: h)
  case Nil
  then show ?case by (simp add: delivered_def)
next
  case (Cons x xs)
  let ?g = "fst (button_handler x h)"
  from Cons.prems have x: "stable_active x h" and rest: "stays_active xs ?g" by simp_all
  show ?case
  proof (cases "unat (ticks h) < LONG_TICKS")
    case True
    note st = press_step(1-3) [OF Cons.prems(1) x True]
    from st(3) True have "unat (ticks ?g) \<le> LONG_TICKS" by simp
    from Cons.IH [OF st(1) this rest] st True show ?thesis
      by (auto simp add: split_beta Let_def)
  next
    case False
    with Cons.prems(2) have eq: "unat (ticks h) = LONG_TICKS" by simp
    note st = press_step(4-6) [OF Cons.prems(1) x eq]
    from hold_run [OF st(1) rest] st eq show ?thesis
      by (cases xs)
        (simp_all add: split_beta Let_def delivered_Cons)
  qed
qed

text \<open>
  C9. An instance in Press whose counter has not passed \<open>LONG_TICKS\<close> is held: the
  debounced level is active in every tick of the run \<open>xs\<close>. Let \<open>k\<close> be the ticks
  left until the counter reaches \<open>LONG_TICKS\<close>. During the first \<open>k\<close> ticks no handler
  is called and the state stays Press. Tick \<open>k + 1\<close>, the first whose counter exceeds
  \<open>LONG_TICKS\<close>, calls LongPressStart, once; each later tick calls LongPressHold, once,
  and nothing else; the state is LongHold and the event field holds the event of the
  last tick. When after that a tick finds the debounced
  level inactive, it calls PressUp, once, and the state becomes Idle.
\<close>

theorem sustained_press_events:
  assumes "state h = BTN_STATE_PRESS" "unat (ticks h) \<le> LONG_TICKS" "stays_active xs h"
  shows "(length xs \<le> LONG_TICKS - unat (ticks h) \<longrightarrow>
            state (fst (run_ticks xs h)) = BTN_STATE_PRESS \<and>
            snd (run_ticks xs h) = []) \<and>
         (length xs > LONG_TICKS - unat (ticks h) \<longrightarrow>
            state (fst (run_ticks xs h)) = BTN_STATE_LONG_HOLD \<and>
            map fst (snd (run_ticks xs h)) =
              delivered h (BTN_LONG_PRESS_START #
                replicate (length xs - (LONG_TICKS - unat (ticks h)) - 1) BTN_LONG_PRESS_HOLD) \<and>
            event (fst (run_ticks xs h)) =
              (if length xs = LONG_TICKS - unat (ticks h) + 1
               then of_nat (enum_val BTN_LONG_PRESS_START)
               else of_nat (enum_val BTN_LONG_PRESS_HOLD)) \<and>
            (\<forall>raw. \<not> stable_active raw (fst (run_ticks xs h)) \<longrightarrow>
               state (fst (button_handler raw (fst (run_ticks xs h)))) = BTN_STATE_IDLE \<and>
               event (fst (button_handler raw (fst (run_ticks xs h)))) =
                 of_nat (enum_val BTN_PRESS_UP) \<and>
               map fst (snd (button_handler raw (fst (run_ticks xs h)))) =
                 delivered h [BTN_PRESS_UP]))"
proof -
  note run = press_run [OF assms]
  have early: "state (fst (run_ticks xs h)) = BTN_STATE_PRESS \<and> snd (run_ticks xs h) = []"
    if "length xs \<le> LONG_TICKS - unat (ticks h)"
    using run that by (simp add: delivered_def)
  have late: "state (fst (run_ticks xs h)) = BTN_STATE_LONG_HOLD \<and>
      map fst (snd (run_ticks xs h)) =
        delivered h (BTN_LONG_PRESS_START #
          replicate (length xs - (LONG_TICKS - unat (ticks h)) - 1) BTN_LONG_PRESS_HOLD) \<and>
      event (fst (run_ticks xs h)) =
        (if length xs = LONG_TICKS - unat (ticks h) + 1
         then of_nat (enum_val BTN_LONG_PRESS_START)
         else of_nat (enum_val BTN_LONG_PRESS_HOLD))"
    if "length xs > LONG_TICKS - unat (ticks h)"
    using run that by simp
  have up: "state (fst (button_handler raw g)) = BTN_STATE_IDLE \<and>
      event (fst (button_handler raw g)) = of_nat (enum_val BTN_PRESS_UP) \<and>
      map fst (snd (button_handler raw g)) = delivered g [BTN_PRESS_UP]"
    if "state g = BTN_STATE_LONG_HOLD" "\<not> stable_active raw g" for raw g
    using that by (simp add: handler_defs)
  have same: "delivered (fst (run_ticks xs h)) es = delivered h es" for es
    by (simp add: delivered_def)
  show ?thesis
    using early late up [of "fst (run_ticks xs h)"] same by auto
qed

theorem sustained_press_events_witness:
  "map fst (snd (run_ticks [1, 1, 1, 0, 0]
      (sample_button\<lparr>state := BTN_STATE_PRESS, button_level := 1, ticks := 198\<rparr>))) =
     [BTN_LONG_PRESS_START, BTN_LONG_PRESS_HOLD, BTN_LONG_PRESS_HOLD] \<and>
   state (fst (button_handler 0 (fst (run_ticks [1, 1, 1, 0, 0]
      (sample_button\<lparr>state := BTN_STATE_PRESS, button_level := 1, ticks := 198\<rparr>))))) =
     BTN_STATE_IDLE \<and>
   map fst (snd (button_handler 0 (fst (run_ticks [1, 1, 1, 0, 0]
      (sample_button\<lparr>state := BTN_STATE_PRESS, button_level := 1, ticks := 198\<rparr>))))) =
     [BTN_PRESS_UP]"
proof -
  let ?b = "sample_button\<lparr>state := BTN_STATE_PRESS, button_level := 1, ticks := 198\<rparr>"
  let ?xs = "[1, 1, 1, 0, 0] :: 8 word list"
  have 1: "state ?b = BTN_STATE_PRESS" by simp
  have 2: "unat (ticks ?b) \<le> LONG_TICKS" by (simp add: config_defs)
  have 3: "stays_active ?xs ?b" by code_simp
  have 4: "length ?xs > LONG_TICKS - unat (ticks ?b)" by (simp add: config_defs)
  have 5: "\<not> stable_active 0 (fst (run_ticks ?xs ?b))" by code_simp
  have 6: "length ?xs - (LONG_TICKS - unat (ticks ?b)) - 1 = 2" by (simp add: config_defs)
  have 7: "delivered ?b es = filter (\<lambda>e. enum_val e < 7) es" for es
    by (simp add: delivered_def sample_button_def NULL_def)
  from sustained_press_events [OF 1 2 3] 4 5 have
    "map fst (snd (run_ticks ?xs ?b)) =
       delivered ?b (BTN_LONG_PRESS_START #
         replicate (length ?xs - (LONG_TICKS - unat (ticks ?b)) - 1) BTN_LONG_PRESS_HOLD) \<and>
     state (fst (button_handler 0 (fst (run_ticks ?xs ?b)))) = BTN_STATE_IDLE \<and>
     map fst (snd (button_handler 0 (fst (run_ticks ?xs ?b)))) = delivered ?b [BTN_PRESS_UP]"
    by blast
  then show ?thesis
    unfolding 6 7 by (simp add: numeral_2_eq_2)
qed

section \<open>Debouncing (C2)\<close>

lemma disagreeing_run_snoc:
  "disagreeing_run l (xs @ [x]) =
     (if unat x \<noteq> unat l then Suc (disagreeing_run l xs) else 0)"
  by (simp add: disagreeing_run_def)

text \<open>
  One debounce step, when the counter holds the length of the current run of
  disagreeing samples.
\<close>

lemma debounce_step:
  assumes "unat (debounce_cnt h) = disagreeing_run (button_level h) xs"
    and "unat (debounce_cnt h) < DEBOUNCE_TICKS" and "x \<le> 1"
  shows "unat (debounce_cnt (debounce x h)) =
           disagreeing_run (button_level (debounce x h)) (xs @ [x])"
    and "unat (debounce_cnt (debounce x h)) < DEBOUNCE_TICKS"
    and "button_level (debounce x h) \<noteq> button_level h \<longleftrightarrow>
           DEBOUNCE_TICKS \<le> disagreeing_run (button_level h) (xs @ [x])"
    and "button_level (debounce x h) \<noteq> button_level h \<longrightarrow>
           unat (button_level (debounce x h)) = unat x \<and> debounce_cnt (debounce x h) = 0"
  using assms binary_ucast [of x] cnt_inc [of "debounce_cnt h"]
  by (auto simp add: debounce_def Let_def disagreeing_run_snoc DEBOUNCE_TICKS_def)

lemma debounce_invariant:
  assumes "debounce_cnt h0 = 0" "\<forall>s \<in> set xs. s \<le> 1"
  shows "unat (debounce_cnt (fst (run_ticks xs h0))) =
           disagreeing_run (button_level (fst (run_ticks xs h0))) xs \<and>
         unat (debounce_cnt (fst (run_ticks xs h0))) < DEBOUNCE_TICKS"
  using assms
proof (induction xs rule: rev_induct)
  case Nil
  then show ?case by (simp add: disagreeing_run_def DEBOUNCE_TICKS_def)
next
  case (snoc x xs)
  then have IH: "unat (debounce_cnt (fst (run_ticks xs h0))) =
        disagreeing_run (button_level (fst (run_ticks xs h0))) xs"
      "unat (debounce_cnt (fst (run_ticks xs h0))) < DEBOUNCE_TICKS"
    and x: "x \<le> 1"
    by simp_all
  from debounce_step(1,2) [OF IH x] show ?case
    by (simp add: run_ticks_snoc)
qed

text \<open>
  C2. Raw samples are binary levels. Starting from a debounce counter of 0, after any
  samples \<open>xs\<close> and for the next sample \<open>x\<close>: the stable level changes in the tick of \<open>x\<close>
  exactly when the samples ending at \<open>x\<close> that differ from it, counted back without a
  gap, number \<open>DEBOUNCE_TICKS\<close>; when it changes, the new stable level is \<open>x\<close> and the
  counter is 0 again; a disagreeing sample that comes first or right after an
  agreeing one does not change the level. For every instance \<open>g\<close> whatever its counter:
  a sample \<open>a\<close> that agrees with the stable level leaves the level and sets the counter
  to 0, and whatever sample \<open>d\<close> follows it leaves the level as well.
\<close>

theorem debounce_commits_after_run:
  assumes "debounce_cnt h0 = 0" "\<forall>s \<in> set (xs @ [x]). s \<le> 1"
  shows "(button_level (fst (run_ticks (xs @ [x]) h0)) \<noteq> button_level (fst (run_ticks xs h0))
            \<longleftrightarrow>
          DEBOUNCE_TICKS \<le> disagreeing_run (button_level (fst (run_ticks xs h0))) (xs @ [x])) \<and>
         (button_level (fst (run_ticks (xs @ [x]) h0)) \<noteq> button_level (fst (run_ticks xs h0))
            \<longrightarrow>
          unat (button_level (fst (run_ticks (xs @ [x]) h0))) = unat x \<and>
          debounce_cnt (fst (run_ticks (xs @ [x]) h0)) = 0) \<and>
         (disagreeing_run (button_level (fst (run_ticks xs h0))) xs = 0 \<longrightarrow>
          button_level (fst (run_ticks (xs @ [x]) h0)) = button_level (fst (run_ticks xs h0))) \<and>
         (unat a = unat (button_level g) \<longrightarrow>
          button_level (fst (button_handler a g)) = button_level g \<and>
          debounce_cnt (fst (button_handler a g)) = 0 \<and>
          button_level (fst (run_ticks [a, d] g)) = button_level g)"
proof -
  let ?h = "fst (run_ticks xs h0)"
  have inv: "unat (debounce_cnt ?h) = disagreeing_run (button_level ?h) xs"
    "unat (debounce_cnt ?h) < DEBOUNCE_TICKS"
    using debounce_invariant [of h0 xs] assms by simp_all
  have x: "x \<le> 1" using assms by simp
  note st = debounce_step(3,4) [OF inv x]
  have isolated: "disagreeing_run (button_level ?h) xs = 0 \<longrightarrow>
      button_level (debounce x ?h) = button_level ?h"
    using st(1) by (auto simp add: disagreeing_run_snoc DEBOUNCE_TICKS_def split: if_splits)
  have agree: "unat a = unat (button_level g) \<longrightarrow>
      button_level (fst (button_handler a g)) = button_level g \<and>
      debounce_cnt (fst (button_handler a g)) = 0 \<and>
      button_level (fst (run_ticks [a, d] g)) = button_level g"
    by (simp add: split_beta Let_def debounce_def DEBOUNCE_TICKS_def)
  show ?thesis
    using st isolated agree by (simp add: run_ticks_snoc)
qed

theorem debounce_commits_after_run_witness:
  "button_level (fst (run_ticks [1, 0, 1, 1] sample_button)) = 0 \<and>
   disagreeing_run 0 ([1, 0, 1, 1] @ [1]) = 3 \<and>
   button_level (fst (run_ticks ([1, 0, 1, 1] @ [1]) sample_button)) = 1 \<and>
   debounce_cnt (fst (run_ticks ([1, 0, 1, 1] @ [1]) sample_button)) = 0 \<and>
   button_level (fst (run_ticks [0, 1] sample_button)) = 0"
proof -
  let ?xs = "[1, 0, 1, 1] :: 8 word list"
  let ?h = "fst (run_ticks ?xs sample_button)"
  let ?h' = "fst (run_ticks (?xs @ [1]) sample_button)"
  have 1: "debounce_cnt sample_button = 0" by (simp add: sample_button_def)
  have 2: "\<forall>s \<in> set (?xs @ [1]). s \<le> 1" by simp
  have 3: "button_level ?h = 0" by code_simp
  have 4: "disagreeing_run 0 (?xs @ [1]) = 3" by (simp add: disagreeing_run_def)
  have 5: "unat (0 :: 8 word) = unat (button_level sample_button)"
    by (simp add: sample_button_def)
  have 6: "DEBOUNCE_TICKS \<le> disagreeing_run (button_level ?h) (?xs @ [1])"
    unfolding 3 4 by (simp add: DEBOUNCE_TICKS_def)
  note inst = debounce_commits_after_run [OF 1 2, of 0 sample_button 1]
  from inst 6 have lv: "unat (button_level ?h') = unat (1 :: 8 word)"
    and cnt: "debounce_cnt ?h' = 0"
    by blast+
  from lv have 7: "button_level ?h' = 1" by (simp add: word_unat_eq_iff)
  from inst 5 have "button_level (fst (run_ticks [0, 1] sample_button)) =
      button_level sample_button"
    by blast
  then have 8: "button_level (fst (run_ticks [0, 1] sample_button)) = 0"
    by (simp add: sample_button_def)
  from 3 4 7 cnt 8 show ?thesis by blast
qed

section \<open>Start and stop (C6)\<close>

lemma chain_upd: "u \<notin> set as \<Longrightarrow> chain (n(u := v)) p as = chain n p as"
  by (induction as arbitrary: p) auto

lemma chain_no_null: "chain n p as \<Longrightarrow> NULL \<notin> set as"
  by (induction as arbitrary: p) auto

lemma chain_unique: "chain n p as \<Longrightarrow> chain n p bs \<Longrightarrow> as = bs"
proof (induction as arbitrary: p bs)
  case Nil
  then show ?case by (cases bs) auto
next
  case (Cons a as)
  then show ?case by (cases bs) auto
qed

lemma chain_suffix: "chain n p (as @ a # bs) \<Longrightarrow> chain n (n a) bs"
  by (induction as arbitrary: p) auto

text \<open>A list that ends at \<^verbatim>\<open>NULL\<close> cannot come back to one of its members.\<close>

lemma chain_head_fresh:
  assumes "chain n (n a) as"
  shows "a \<notin> set as"
proof
  assume "a \<in> set as"
  then obtain bs cs where split: "as = bs @ a # cs"
    by (auto simp add: in_set_conv_decomp)
  with assms have "chain n (n a) cs" using chain_suffix by blast
  with assms have "as = cs" by (rule chain_unique)
  with split show False by simp
qed

lemma chain_distinct: "chain n p as \<Longrightarrow> distinct as"
  by (induction as arbitrary: p) (auto dest: chain_head_fresh)

text \<open>On a well-formed list both loops end, and say what they found.\<close>

lemma start_scan_chain:
  "chain (nxt reg) p as \<Longrightarrow> h \<noteq> NULL \<Longrightarrow> start_scan reg h p = Some (h \<in> set as)"
proof (induction as arbitrary: p)
  case Nil
  then show ?case by (simp add: start_scan.simps)
next
  case (Cons a as)
  then show ?case by (subst start_scan.simps) auto
qed

lemma stop_scan_absent:
  "chain (nxt reg) (load_link reg cur) as \<Longrightarrow> h \<notin> set as \<Longrightarrow>
     stop_scan reg h cur = Some reg"
proof (induction as arbitrary: cur)
  case Nil
  then show ?case by (simp add: stop_scan.simps)
next
  case (Cons a as)
  from Cons.prems have "chain (nxt reg) (load_link reg (Next_link a)) as" "h \<notin> set as"
    by (simp_all add: load_link_def)
  then have "stop_scan reg h (Next_link a) = Some reg" by (rule Cons.IH)
  with Cons.prems show ?case by (subst stop_scan.simps) auto
qed

lemma stop_scan_present:
  assumes "chain (nxt reg) (load_link reg cur) as" "h \<in> set as"
    and "cur \<notin> Next_link ` set as"
  shows "\<exists>reg'. stop_scan reg h cur = Some reg' \<and>
           chain (nxt reg') (load_link reg' cur) (remove1 h as) \<and>
           nxt reg' h = NULL \<and>
           (\<forall>l. l \<noteq> cur \<and> l \<notin> Next_link ` set as \<longrightarrow> load_link reg' l = load_link reg l)"
  using assms
proof (induction as arbitrary: cur)
  case Nil
  then show ?case by simp
next
  case (Cons a as)
  from Cons.prems(1) have a: "load_link reg cur = a" "a \<noteq> NULL"
    and tl: "chain (nxt reg) (nxt reg a) as" by simp_all
  from tl have fresh: "a \<notin> set as" by (rule chain_head_fresh)
  show ?case
  proof (cases "a = h")
    case True
    let ?r = "store_link (store_link reg cur (nxt reg h)) (Next_link h) NULL"
    have run: "stop_scan reg h cur = Some ?r"
      using a True by (subst stop_scan.simps) simp
    have ne: "cur \<noteq> Next_link h" using Cons.prems(3) True by auto
    have ld: "load_link ?r cur = nxt reg h"
      using ne by (cases cur) (simp_all add: load_link_def store_link_def)
    have ch: "chain (nxt ?r) (nxt reg h) as"
    proof (cases cur)
      case Head_link
      then show ?thesis using tl fresh True
        by (simp add: store_link_def chain_upd)
    next
      case (Next_link e)
      then have "e \<notin> set as" using Cons.prems(3) by auto
      then show ?thesis using tl fresh True Next_link
        by (simp add: store_link_def chain_upd)
    qed
    have z: "nxt ?r h = NULL"
      by (cases cur) (simp_all add: store_link_def)
    have fr: "\<forall>l. l \<noteq> cur \<and> l \<notin> Next_link ` set (a # as) \<longrightarrow>
        load_link ?r l = load_link reg l"
    proof (intro allI impI)
      fix l assume l: "l \<noteq> cur \<and> l \<notin> Next_link ` set (a # as)"
      then have "l \<noteq> Next_link h" using True by auto
      with l show "load_link ?r l = load_link reg l"
        by (cases cur; cases l) (auto simp add: load_link_def store_link_def)
    qed
    show ?thesis using run ld ch z fr True by simp
  next
    case False
    then have h: "h \<in> set as" using Cons.prems(2) by simp
    have c': "chain (nxt reg) (load_link reg (Next_link a)) as"
      using tl by (simp add: load_link_def)
    have n': "Next_link a \<notin> Next_link ` set as" using fresh by auto
    from Cons.IH [OF c' h n'] obtain reg' where
      run': "stop_scan reg h (Next_link a) = Some reg'" and
      ch': "chain (nxt reg') (load_link reg' (Next_link a)) (remove1 h as)" and
      z': "nxt reg' h = NULL" and
      fr': "\<forall>l. l \<noteq> Next_link a \<and> l \<notin> Next_link ` set as \<longrightarrow>
              load_link reg' l = load_link reg l"
      by blast
    have run: "stop_scan reg h cur = Some reg'"
      using a False run' by (subst stop_scan.simps) simp
    have "cur \<noteq> Next_link a \<and> cur \<notin> Next_link ` set as" using Cons.prems(3) by auto
    then have ld: "load_link reg' cur = a" using fr' a by simp
    have ch: "chain (nxt reg') (load_link reg' cur) (remove1 h (a # as))"
      using ld a ch' False by (simp add: load_link_def)
    have fr: "\<forall>l. l \<noteq> cur \<and> l \<notin> Next_link ` set (a # as) \<longrightarrow>
        load_link reg' l = load_link reg l"
      using fr' by auto
    show ?thesis using run ch z' fr by blast
  qed
qed

text \<open>
  C6. \<^verbatim>\<open>button_start\<close> on \<^verbatim>\<open>NULL\<close> returns -2 and leaves the registry as it is. When
  the registry holds the list \<open>xs\<close>: starting a member returns -1 and leaves the
  registry as it is; starting a non-null instance that is not a member returns 0 and
  the list becomes that instance followed by \<open>xs\<close>. \<^verbatim>\<open>button_stop\<close> on \<^verbatim>\<open>NULL\<close> or on an
  instance that is not a member leaves the registry as it is; stopping a member
  leaves the other members in their order, the instance is no longer in the list and
  its link is \<^verbatim>\<open>NULL\<close>. Every one of these calls returns.
\<close>

theorem start_stop_registry:
  "button_start reg NULL = Some (- 2, reg) \<and>
   (active_set reg xs \<and> h \<in> set xs \<longrightarrow> button_start reg h = Some (- 1, reg)) \<and>
   (active_set reg xs \<and> h \<noteq> NULL \<and> h \<notin> set xs \<longrightarrow>
      (\<exists>reg'. button_start reg h = Some (0, reg') \<and> active_set reg' (h # xs))) \<and>
   button_stop reg NULL = Some reg \<and>
   (active_set reg xs \<and> h \<notin> set xs \<longrightarrow> button_stop reg h = Some reg) \<and>
   (active_set reg xs \<and> h \<in> set xs \<longrightarrow>
      (\<exists>reg'. button_stop reg h = Some reg' \<and> active_set reg' (remove1 h xs) \<and>
          h \<notin> set (remove1 h xs) \<and> nxt reg' h = NULL))"
proof -
  have s1: "button_start reg NULL = Some (- 2, reg)"
    by (simp add: button_start_def)
  have s2: "button_start reg h = Some (- 1, reg)" if "active_set reg xs" "h \<in> set xs"
  proof -
    have "h \<noteq> NULL" using that chain_no_null by (auto simp add: active_set_def)
    then show ?thesis
      using that start_scan_chain [of reg "head_handle reg" xs h]
      by (simp add: button_start_def active_set_def)
  qed
  have s3: "\<exists>reg'. button_start reg h = Some (0, reg') \<and> active_set reg' (h # xs)"
    if "active_set reg xs" "h \<noteq> NULL" "h \<notin> set xs"
    using that start_scan_chain [of reg "head_handle reg" xs h]
    by (simp add: button_start_def active_set_def chain_upd)
  have t1: "button_stop reg NULL = Some reg"
    by (simp add: button_stop_def)
  have t2: "button_stop reg h = Some reg" if "active_set reg xs" "h \<notin> set xs"
    using that stop_scan_absent [of reg Head_link xs h]
    by (simp add: button_stop_def active_set_def load_link_def)
  have t3: "\<exists>reg'. button_stop reg h = Some reg' \<and> active_set reg' (remove1 h xs) \<and>
      h \<notin> set (remove1 h xs) \<and> nxt reg' h = NULL"
    if "active_set reg xs" "h \<in> set xs"
  proof -
    have "h \<noteq> NULL" using that chain_no_null by (auto simp add: active_set_def)
    moreover have "distinct xs" using that chain_distinct by (auto simp add: active_set_def)
    moreover have "Head_link \<notin> Next_link ` set xs" by auto
    ultimately show ?thesis
      using that stop_scan_present [of reg Head_link xs h]
      by (auto simp add: button_stop_def active_set_def load_link_def)
  qed
  show ?thesis using s1 s2 s3 t1 t2 t3 by blast
qed

theorem start_stop_registry_witness:
  "active_set sample_registry [3, 5] \<and>
   button_start sample_registry 5 = Some (- 1, sample_registry) \<and>
   (\<exists>reg'. button_start sample_registry 7 = Some (0, reg') \<and> active_set reg' [7, 3, 5]) \<and>
   button_stop sample_registry 7 = Some sample_registry \<and>
   (\<exists>reg'. button_stop sample_registry 5 = Some reg' \<and> active_set reg' [3] \<and>
      nxt reg' 5 = NULL)"
proof -
  have a: "active_set sample_registry [3, 5]"
    by (simp add: active_set_def sample_registry_def NULL_def)
  have n: "(7 :: addr) \<noteq> NULL" by (simp add: NULL_def)
  show ?thesis
    using start_stop_registry [of sample_registry "[3, 5]" 5]
      start_stop_registry [of sample_registry "[3, 5]" 7] a n
    by simp
qed

end
